theory Spec2Isabelle
  imports Main
begin

section \<open>Characters and the \<^verbatim>\<open>std::string\<close> operations the program uses\<close>

text \<open>
  A \<^verbatim>\<open>std::string\<close> is a sequence of bytes: a \<^typ>\<open>string\<close> (a list of
  \<^typ>\<open>char\<close>). The four characters below have no readable literal.
\<close>

abbreviation dquote :: char where "dquote \<equiv> CHR 0x22"
abbreviation backslash :: char where "backslash \<equiv> CHR 0x5C"
abbreviation tab :: char where "tab \<equiv> CHR 0x09"
abbreviation newline :: char where "newline \<equiv> CHR 0x0A"

text \<open>
  \<^verbatim>\<open>s.find(pat, pos)\<close>: the least index \<open>i \<ge> pos\<close> at which \<open>pat\<close> occurs in
  \<open>s\<close>; \<^verbatim>\<open>npos\<close> is \<open>None\<close>. \<open>find_at pat cs i\<close> scans the suffix \<open>cs\<close> of
  \<open>s\<close> that starts at index \<open>i\<close>.
\<close>

fun find_at :: "string \<Rightarrow> string \<Rightarrow> nat \<Rightarrow> nat option" where
  "find_at pat [] i = (if pat = [] then Some i else None)"
| "find_at pat (c # cs) i =
     (if take (length pat) (c # cs) = pat then Some i else find_at pat cs (Suc i))"

definition find_str :: "string \<Rightarrow> string \<Rightarrow> nat \<Rightarrow> nat option" where
  "find_str s pat pos = (if length s < pos then None else find_at pat (drop pos s) pos)"

text \<open>
  \<^verbatim>\<open>s.substr(pos, n)\<close>. The library call throws when \<open>pos > s.length()\<close>; every
  call of the program passes a position that \<^verbatim>\<open>find\<close> returned for the same string
  (lemma \<open>find_str_bounds\<close> below), so the throwing branch is never taken.
\<close>

definition substr :: "string \<Rightarrow> nat \<Rightarrow> nat \<Rightarrow> string" where
  "substr s pos n = take n (drop pos s)"

text \<open>
  \<^verbatim>\<open>s.c_str()\<close> as a C function reads it: the bytes before the first NUL.
\<close>

definition c_str :: "string \<Rightarrow> string" where
  "c_str s = takeWhile (\<lambda>c. c \<noteq> CHR 0x00) s"

section \<open>extractJsonValue\<close>

text \<open>
  The brace-matching loop (lines 107-118, and again lines 216-227):
  \<^verbatim>\<open>for (i = pos; i < length; i++) { if (s[i] == '{') brace_count++;
     if (s[i] == '}') { brace_count--; if (brace_count == 0) { end_pos = i + 1; break; } } }\<close>
  \<open>scan_braces cs i brace_count\<close> runs it on the suffix \<open>cs\<close> starting at index \<open>i\<close>
  and returns the \<open>end_pos\<close> assigned before the \<^verbatim>\<open>break\<close>, or \<open>None\<close> when the
  loop runs off the end of the string. \<^verbatim>\<open>brace_count\<close> is a C \<^verbatim>\<open>int\<close>; it never
  exceeds the number of characters scanned, so it is modelled by \<^typ>\<open>int\<close>.
\<close>

fun scan_braces :: "string \<Rightarrow> nat \<Rightarrow> int \<Rightarrow> nat option" where
  "scan_braces [] i brace_count = None"
| "scan_braces (c # cs) i brace_count =
     (let bc = (if c = CHR ''{'' then brace_count + 1 else brace_count) in
      if c = CHR ''}'' then
        (if bc - 1 = 0 then Some (i + 1) else scan_braces cs (i + 1) (bc - 1))
      else scan_braces cs (i + 1) bc)"

text \<open>\<^verbatim>\<open>end_pos\<close> after the loop: initialised to \<open>pos\<close>, overwritten only at the break.\<close>

definition matching_end :: "string \<Rightarrow> nat \<Rightarrow> nat" where
  "matching_end s pos = (case scan_braces (drop pos s) pos 0 of None \<Rightarrow> pos | Some e \<Rightarrow> e)"

text \<open>\<^verbatim>\<open>s.substr(pos, end_pos - pos)\<close>: the text handed to the next extraction.\<close>

definition brace_span :: "string \<Rightarrow> nat \<Rightarrow> string" where
  "brace_span s pos = substr s pos (matching_end s pos - pos)"

text \<open>
  Line 133: \<^verbatim>\<open>while (pos < length && (s[pos] == ' ' || s[pos] == '\t')) pos++;\<close>
  on the suffix starting at \<open>pos\<close>; the result is the final \<open>pos\<close>.
\<close>

fun skip_ws :: "string \<Rightarrow> nat \<Rightarrow> nat" where
  "skip_ws [] pos = pos"
| "skip_ws (c # cs) pos = (if c = CHR '' '' \<or> c = tab then skip_ws cs (Suc pos) else pos)"

text \<open>
  Lines 141-151, on the suffix after the opening quote: the characters appended to
  \<^verbatim>\<open>value\<close>. \<^verbatim>\<open>pos + 1 < length\<close> is \<open>cs \<noteq> []\<close>.
\<close>

fun read_string_value :: "string \<Rightarrow> string" where
  "read_string_value [] = []"
| "read_string_value (c # cs) =
     (if c = dquote then []
      else if c = backslash \<and> cs \<noteq> [] then
        (if hd cs = CHR ''n'' then newline
         else if hd cs = CHR ''t'' then tab
         else hd cs) # read_string_value (tl cs)
      else c # read_string_value cs)"

text \<open>Lines 154-158, on the suffix starting at the value.\<close>

fun read_scalar_value :: "string \<Rightarrow> string" where
  "read_scalar_value [] = []"
| "read_scalar_value (c # cs) =
     (if c \<noteq> CHR '','' \<and> c \<noteq> CHR ''}'' \<and> c \<noteq> CHR '']'' \<and> c \<noteq> CHR '' '' \<and> c \<noteq> newline
      then c # read_scalar_value cs else [])"

text \<open>
  Lines 124-135: the index of the first character of the value of \<open>key\<close>, or \<open>None\<close>
  where the code returns the empty string.
\<close>

definition value_pos :: "string \<Rightarrow> string \<Rightarrow> nat option" where
  "value_pos json key =
     (case find_str json (dquote # key @ [dquote]) 0 of
        None \<Rightarrow> None
      | Some p \<Rightarrow>
          (case find_str json '':'' p of
             None \<Rightarrow> None
           | Some q \<Rightarrow>
               (let pos = skip_ws (drop (q + 1) json) (q + 1)
                in if length json \<le> pos then None else Some pos)))"

text \<open>Lines 123-160: the extraction of a key without a dot.\<close>

definition extract_simple :: "string \<Rightarrow> string \<Rightarrow> string" where
  "extract_simple json key =
     (case value_pos json key of
        None \<Rightarrow> []
      | Some pos \<Rightarrow>
          if json ! pos = dquote then read_string_value (drop (pos + 1) json)
          else read_scalar_value (drop pos json))"

text \<open>
  The whole function (lines 87-161). The result is a \<^verbatim>\<open>std::string\<close>; the empty
  string is what the specification calls Absent.
\<close>

function extractJsonValue :: "string \<Rightarrow> string \<Rightarrow> string" where
  "extractJsonValue json key =
     (case find_str key ''.'' 0 of
        Some dot_pos \<Rightarrow>
          (let parent_key = substr key 0 dot_pos;
               child_key = drop (dot_pos + 1) key;
               parent_search = dquote # parent_key @ [dquote]
           in case find_str json parent_search 0 of
                None \<Rightarrow> []
              | Some pos \<Rightarrow>
                  (case find_str json ''{'' pos of
                     None \<Rightarrow> []
                   | Some pos \<Rightarrow> extractJsonValue (brace_span json pos) child_key))
      | None \<Rightarrow> extract_simple json key)"
  by pat_completeness auto
termination
proof (relation "measure (\<lambda>(json, key). length key)")
  show "wf (measure (\<lambda>(json, key). length key))" by simp
next
  fix json key child_key :: string and dot_pos pos :: nat
  assume "find_str key ''.'' 0 = Some dot_pos" and "child_key = drop (dot_pos + 1) key"
  moreover from this have "key \<noteq> []" by (auto simp: find_str_def)
  ultimately show "((brace_span json pos, child_key), (json, key))
      \<in> measure (\<lambda>(json, key). length key)"
    by simp
qed

declare extractJsonValue.simps [simp del]

subsection \<open>The same function over an explicit store\<close>

text \<open>
  \<^verbatim>\<open>extractJsonValue\<close> receives its buffer by \<^verbatim>\<open>const std::string &\<close> and works on
  a local copy, \<^verbatim>\<open>remaining_json\<close>, which it overwrites in the nested case and passes,
  again by reference, to the recursive call. To state what a call does to the strings
  it can reach, the strings live in a store (a list, addresses are indices): the
  parameter \<open>json\<close> is an address, the local is allocated at the end of the store on
  entry and removed on return. The function returns its result and the store it leaves.
\<close>

type_synonym store = "string list"

function extractJsonValue_st :: "store \<Rightarrow> nat \<Rightarrow> string \<Rightarrow> string \<times> store" where
  "extractJsonValue_st st json key =
     (let remaining_json = length st;
          st1 = st @ [st ! json]
      in case find_str key ''.'' 0 of
           Some dot_pos \<Rightarrow>
             (let parent_key = substr key 0 dot_pos;
                  child_key = drop (dot_pos + 1) key;
                  parent_search = dquote # parent_key @ [dquote]
              in case find_str (st1 ! remaining_json) parent_search 0 of
                   None \<Rightarrow> ([], butlast st1)
                 | Some pos \<Rightarrow>
                     (case find_str (st1 ! remaining_json) ''{'' pos of
                        None \<Rightarrow> ([], butlast st1)
                      | Some pos \<Rightarrow>
                          (let st2 = st1[remaining_json := brace_span (st1 ! remaining_json) pos]
                           in case extractJsonValue_st st2 remaining_json child_key of
                                (v, st3) \<Rightarrow> (v, butlast st3))))
         | None \<Rightarrow> (extract_simple (st1 ! remaining_json) key, butlast st1))"
  by pat_completeness auto
termination
proof (relation "measure (\<lambda>(st, json, key). length key)")
  show "wf (measure (\<lambda>(st, json, key). length key))" by simp
next
  fix st st2 :: store and json remaining_json dot_pos :: nat and key child_key :: string
  assume "find_str key ''.'' 0 = Some dot_pos" and "child_key = drop (dot_pos + 1) key"
  moreover from this have "key \<noteq> []" by (auto simp: find_str_def)
  ultimately show "((st2, remaining_json, child_key), (st, json, key))
      \<in> measure (\<lambda>(st, json, key). length key)"
    by simp
qed

declare extractJsonValue_st.simps [simp del]

section \<open>fetchWeather\<close>

text \<open>
  \<^verbatim>\<open>struct WeatherData\<close> and its constructor. The four \<^verbatim>\<open>float\<close> fields have the
  type \<open>'f\<close>, of which only the constant zero is used here; \<^verbatim>\<open>time_t\<close> is an integer.
\<close>

record 'f WeatherData =
  temp :: 'f
  feels_like :: 'f
  humidity :: 'f
  wind_speed :: 'f
  condition_main :: string
  condition_description :: string
  timestamp :: int
  valid :: bool

definition WeatherData_init :: "('f::zero) WeatherData" where
  "WeatherData_init =
     \<lparr>temp = 0, feels_like = 0, humidity = 0, wind_speed = 0,
      condition_main = ''Unknown'', condition_description = [],
      timestamp = 0, valid = False\<rparr>"

text \<open>
  What libcurl hands back to \<^verbatim>\<open>fetchWeather\<close>: \<^verbatim>\<open>curl_easy_init\<close> returned NULL;
  \<^verbatim>\<open>curl_easy_perform\<close> returned something other than \<^verbatim>\<open>CURLE_OK\<close>; or the transfer
  was performed, with the response code and the bytes \<^verbatim>\<open>WriteCallback\<close> appended to
  \<^verbatim>\<open>response_data\<close>. The URL built from the arguments of \<^verbatim>\<open>fetchWeather\<close> only
  reaches libcurl, so the outcome stands for it.
\<close>

datatype fetch_outcome = InitFailed | PerformFailed | Responded int string

text \<open>
  Lines 209-228: the text of the first object after the first \<^verbatim>\<open>[\<close> after the first
  \<^verbatim>\<open>"weather"\<close>, or \<open>None\<close> when one of the three searches fails.
\<close>

definition first_weather_obj :: "string \<Rightarrow> string option" where
  "first_weather_obj response_data =
     (case find_str response_data (dquote # ''weather'' @ [dquote]) 0 of
        None \<Rightarrow> None
      | Some weather_start \<Rightarrow>
          (case find_str response_data ''['' weather_start of
             None \<Rightarrow> None
           | Some array_start \<Rightarrow>
               (case find_str response_data ''{'' array_start of
                  None \<Rightarrow> None
                | Some obj_start \<Rightarrow> Some (brace_span response_data obj_start))))"

text \<open>
  Lines 164-250. \<open>atof\<close> and \<open>atol\<close> are the C library's conversions (with the
  narrowing to \<^verbatim>\<open>float\<close> and the cast to \<^verbatim>\<open>time_t\<close>), taken as parameters; they
  are applied to the \<^verbatim>\<open>c_str()\<close> of the extracted text.
\<close>

definition fetchWeather ::
  "(string \<Rightarrow> 'f) \<Rightarrow> (string \<Rightarrow> int) \<Rightarrow> fetch_outcome \<Rightarrow> ('f::zero) WeatherData" where
  "fetchWeather atof atol outcome =
     (let weather = WeatherData_init in
      case outcome of
        InitFailed \<Rightarrow> weather
      | PerformFailed \<Rightarrow> weather
      | Responded response_code response_data \<Rightarrow>
          if response_code \<noteq> 200 then weather
          else
            (let temp_str = extractJsonValue response_data ''main.temp'';
                 feels_str = extractJsonValue response_data ''main.feels_like'';
                 humidity_str = extractJsonValue response_data ''main.humidity'';
                 weather =
                   (case first_weather_obj response_data of
                      None \<Rightarrow> weather
                    | Some weather_obj \<Rightarrow>
                        weather\<lparr>condition_main := extractJsonValue weather_obj ''main'',
                                condition_description :=
                                  extractJsonValue weather_obj ''description''\<rparr>);
                 wind_str = extractJsonValue response_data ''wind.speed'';
                 dt_str = extractJsonValue response_data ''dt'';
                 weather = (if temp_str \<noteq> [] then weather\<lparr>temp := atof (c_str temp_str)\<rparr> else weather);
                 weather =
                   (if feels_str \<noteq> [] then weather\<lparr>feels_like := atof (c_str feels_str)\<rparr> else weather);
                 weather =
                   (if humidity_str \<noteq> [] then weather\<lparr>humidity := atof (c_str humidity_str)\<rparr>
                    else weather);
                 weather =
                   (if wind_str \<noteq> [] then weather\<lparr>wind_speed := atof (c_str wind_str)\<rparr> else weather);
                 weather = (if dt_str \<noteq> [] then weather\<lparr>timestamp := atol (c_str dt_str)\<rparr> else weather)
             in weather\<lparr>valid := True\<rparr>))"

section \<open>The loop of main\<close>

text \<open>
  \<^verbatim>\<open>struct timespec\<close>, and the absolute wait of lines 32-53 (the \<^verbatim>\<open>TIMER_ABSTIME\<close>
  branch of the \<^verbatim>\<open>clock_nanosleep\<close> the file defines where the platform has none): from
  the clock reading \<open>now\<close> and the requested deadline, the relative time handed to
  \<^verbatim>\<open>nanosleep\<close>, or \<open>None\<close> when the deadline has passed and the call returns at
  once. Elsewhere the system's \<^verbatim>\<open>clock_nanosleep\<close> receives the same deadline.
\<close>

record timespec =
  tv_sec :: int
  tv_nsec :: int

definition clock_nanosleep_abstime :: "timespec \<Rightarrow> timespec \<Rightarrow> timespec option" where
  "clock_nanosleep_abstime now request =
     (let diff = \<lparr>tv_sec = tv_sec request - tv_sec now, tv_nsec = tv_nsec request - tv_nsec now\<rparr>;
          diff = (if tv_nsec diff < 0
                  then \<lparr>tv_sec = tv_sec diff - 1, tv_nsec = tv_nsec diff + 1000000000\<rparr>
                  else diff)
      in if tv_sec diff < 0 then None else Some diff)"

text \<open>
  The variables the loop carries from one iteration to the next (lines 454-460).
  \<^verbatim>\<open>time_t\<close> is a 64-bit integer, far from its bounds: \<^typ>\<open>int\<close>.
\<close>

record 'f loop_state =
  next_time :: timespec
  last_weather_fetch :: int
  current_weather :: "'f WeatherData"

definition initial_state :: "int \<Rightarrow> ('f::zero) loop_state" where
  "initial_state start =
     \<lparr>next_time = \<lparr>tv_sec = start, tv_nsec = 0\<rparr>,
      last_weather_fetch = 0,
      current_weather = WeatherData_init\<rparr>"

text \<open>
  What one iteration meets: the outcome libcurl would produce if \<^verbatim>\<open>fetchWeather\<close> is
  called in it, and the clock reading at the moment the iteration reaches the wait
  (it grows with the time the refresh and the drawing took).
\<close>

record tick_env =
  fetch_result :: fetch_outcome
  now_at_wait :: timespec

text \<open>
  The weather line drawn (lines 494-522): the arguments of the \<^verbatim>\<open>snprintf\<close> with
  format \<^verbatim>\<open>"%.0f%c %s"\<close> (the last one is \<^verbatim>\<open>condition_main.c_str()\<close>), or the
  status text.
\<close>

datatype 'f weather_line = Reading 'f char string | Status string

definition draw_weather_line :: "string \<Rightarrow> 'f WeatherData \<Rightarrow> 'f weather_line" where
  "draw_weather_line units w =
     (if valid w
      then Reading (temp w) (if units = ''imperial'' then CHR ''F'' else CHR ''C'')
             (c_str (condition_main w))
      else Status ''Loading...'')"

text \<open>What one iteration does that can be observed from outside.\<close>

record 'f tick_event =
  ev_deadline :: timespec
  ev_fetches :: nat
  ev_record :: "'f WeatherData"
  ev_line :: "'f weather_line"
  ev_sleep :: "timespec option"

text \<open>
  One iteration of the \<^verbatim>\<open>while\<close> loop (lines 466-530): the refresh when it is due,
  the drawing of the weather line from \<^verbatim>\<open>current_weather\<close>, the wait for
  \<^verbatim>\<open>next_time\<close>, and \<^verbatim>\<open>next_time.tv_sec += 1\<close>. \<open>weather_refresh\<close> and \<open>units\<close>
  are the command-line settings.
\<close>

definition loop_body ::
  "(string \<Rightarrow> 'f) \<Rightarrow> (string \<Rightarrow> int) \<Rightarrow> string \<Rightarrow> int \<Rightarrow> tick_env \<Rightarrow> ('f::zero) loop_state
     \<Rightarrow> 'f tick_event \<times> 'f loop_state" where
  "loop_body atof atol units weather_refresh env s =
     (let due = (tv_sec (next_time s) - last_weather_fetch s \<ge> weather_refresh);
          s1 = (if due
                then s\<lparr>current_weather := fetchWeather atof atol (fetch_result env),
                       last_weather_fetch := tv_sec (next_time s)\<rparr>
                else s);
          ev = \<lparr>ev_deadline = next_time s1,
                ev_fetches = (if due then 1 else 0),
                ev_record = current_weather s1,
                ev_line = draw_weather_line units (current_weather s1),
                ev_sleep = clock_nanosleep_abstime (now_at_wait env) (next_time s1)\<rparr>
      in (ev, s1\<lparr>next_time := (next_time s1)\<lparr>tv_sec := tv_sec (next_time s1) + 1\<rparr>\<rparr>))"

text \<open>
  The loop, run for as many iterations as there are environments: the list ends where
  \<^verbatim>\<open>interrupt_received\<close> is found set at the top of the loop.
\<close>

fun run_loop ::
  "(string \<Rightarrow> 'f) \<Rightarrow> (string \<Rightarrow> int) \<Rightarrow> string \<Rightarrow> int \<Rightarrow> tick_env list \<Rightarrow> ('f::zero) loop_state
     \<Rightarrow> 'f tick_event list \<times> 'f loop_state" where
  "run_loop atof atol units weather_refresh [] s = ([], s)"
| "run_loop atof atol units weather_refresh (env # envs) s =
     (case loop_body atof atol units weather_refresh env s of
        (ev, s1) \<Rightarrow>
          (case run_loop atof atol units weather_refresh envs s1 of
             (evs, s2) \<Rightarrow> (ev # evs, s2)))"

section \<open>Notions of the specification\<close>

text \<open>
  A quoted string literal as the specification describes it: a quote, then items
  that are either a plain character (neither the quote nor the backslash) or a
  backslash followed by one character, then the closing quote.
\<close>

datatype lit_item = Plain char | Esc char

fun encode_item :: "lit_item \<Rightarrow> string" where
  "encode_item (Plain c) = [c]"
| "encode_item (Esc x) = [backslash, x]"

definition encode_literal :: "lit_item list \<Rightarrow> string" where
  "encode_literal items = dquote # concat (map encode_item items) @ [dquote]"

fun plain_ok :: "lit_item \<Rightarrow> bool" where
  "plain_ok (Plain c) = (c \<noteq> dquote \<and> c \<noteq> backslash)"
| "plain_ok (Esc x) = True"

text \<open>
  The decoding the specification asks for: \<^verbatim>\<open>\n\<close> and \<^verbatim>\<open>\t\<close> become the control
  characters, any other escaped character stands for itself.
\<close>

fun spec_decode_item :: "lit_item \<Rightarrow> char" where
  "spec_decode_item (Plain c) = c"
| "spec_decode_item (Esc x) =
     (if x = CHR ''n'' then newline else if x = CHR ''t'' then tab else x)"

text \<open>
  The text \<open>pat\<close> occurs in \<open>s\<close> at index \<open>n\<close> and at no earlier index.
\<close>

definition first_occurrence :: "string \<Rightarrow> string \<Rightarrow> nat \<Rightarrow> bool" where
  "first_occurrence pat s n =
     (take (length pat) (drop n s) = pat
      \<and> (\<forall>i \<in> {0..<n}. take (length pat) (drop i s) \<noteq> pat))"

text \<open>The specification's delimiter set of a scalar token.\<close>

definition delimiter :: "char \<Rightarrow> bool" where
  "delimiter c =
     (c = CHR '','' \<or> c = CHR ''}'' \<or> c = CHR '']'' \<or> c = CHR '' '' \<or> c = newline)"

text \<open>
  JSON's insignificant whitespace (space, tab, line feed, carriage return), and the
  specification's "no surrounding whitespace" for a returned token.
\<close>

definition json_whitespace :: "char \<Rightarrow> bool" where
  "json_whitespace c = (c = CHR '' '' \<or> c = tab \<or> c = newline \<or> c = CHR 0x0D)"

definition spec_no_surrounding_whitespace :: "string \<Rightarrow> bool" where
  "spec_no_surrounding_whitespace r =
     (r = [] \<or> (\<not> json_whitespace (hd r) \<and> \<not> json_whitespace (last r)))"

text \<open>
  The refresh rule over the events of a run: an iteration calls \<^verbatim>\<open>fetchWeather\<close> once
  when its deadline is at least \<open>weather_refresh\<close> seconds after the reference time,
  and not at all otherwise; the events that \<open>counts\<close> selects move the reference time
  to their deadline.
\<close>

fun refresh_rule ::
  "('f tick_event \<Rightarrow> bool) \<Rightarrow> int \<Rightarrow> int \<Rightarrow> 'f tick_event list \<Rightarrow> bool" where
  "refresh_rule counts weather_refresh last_fetch [] = True"
| "refresh_rule counts weather_refresh last_fetch (e # es) =
     (ev_fetches e = (if weather_refresh \<le> tv_sec (ev_deadline e) - last_fetch then 1 else 0)
      \<and> refresh_rule counts weather_refresh
            (if counts e then tv_sec (ev_deadline e) else last_fetch) es)"

text \<open>An iteration that attempted a refresh, whatever came of it.\<close>

definition refresh_attempt :: "'f tick_event \<Rightarrow> bool" where
  "refresh_attempt e = (0 < ev_fetches e)"

text \<open>
  The specification's reading: only a refresh that succeeded (the record it produced
  is valid) moves the reference time.
\<close>

definition spec_successful_refresh :: "'f tick_event \<Rightarrow> bool" where
  "spec_successful_refresh e = (0 < ev_fetches e \<and> valid (ev_record e))"

text \<open>
  Example inputs for the runs evaluated below: a response body, and the environment of
  an iteration that reaches its wait a quarter of a second after the full second \<open>t\<close>.
\<close>

definition example_body :: string where
  \<open>example_body = ''{"weather":[{"main":"Clouds"}],"main":{"temp":21.5}}''\<close>

definition example_tick :: "fetch_outcome \<Rightarrow> int \<Rightarrow> tick_env" where
  "example_tick outcome t =
     \<lparr>fetch_result = outcome, now_at_wait = \<lparr>tv_sec = t, tv_nsec = 250000000\<rparr>\<rparr>"

section \<open>Properties of the string operations\<close>

lemma find_at_bounds:
  "find_at pat cs i = Some j \<Longrightarrow> i \<le> j \<and> j + length pat \<le> i + length cs"
proof (induction cs arbitrary: i)
  case Nil
  then show ?case by (simp split: if_splits)
next
  case (Cons c cs)
  show ?case
  proof (cases "take (length pat) (c # cs) = pat")
    case True
    then have "length (take (length pat) (c # cs)) = length pat"
      by (rule arg_cong)
    then have "length pat \<le> length (c # cs)"
      by (simp add: min_def split: if_splits)
    with True Cons.prems show ?thesis by simp
  next
    case False
    with Cons.prems have "find_at pat cs (Suc i) = Some j" by simp
    from Cons.IH [OF this] show ?thesis by simp
  qed
qed

text \<open>
  A position \<^verbatim>\<open>find\<close> returns lies inside the string, so every \<^verbatim>\<open>substr\<close> of the
  program starts in range.
\<close>

lemma find_str_bounds:
  "find_str s pat pos = Some j \<Longrightarrow> pos \<le> j \<and> j + length pat \<le> length s"
  unfolding find_str_def
  by (auto split: if_splits dest!: find_at_bounds)

lemma find_str_Nil: "pat \<noteq> [] \<Longrightarrow> find_str [] pat pos = None"
  by (simp add: find_str_def)

lemma find_at_first_char:
  "c \<notin> set xs \<Longrightarrow> find_at [c] (xs @ c # ys) i = Some (i + length xs)"
  by (induction xs arbitrary: i) auto

lemma find_at_absent: "c \<notin> set cs \<Longrightarrow> find_at [c] cs i = None"
  by (induction cs arbitrary: i) auto

lemma find_str_absent: "c \<notin> set s \<Longrightarrow> find_str s [c] 0 = None"
  by (simp add: find_str_def find_at_absent)

text \<open>\<^verbatim>\<open>find\<close> returns the first occurrence.\<close>

lemma find_at_first:
  "take (length pat) (drop n cs) = pat \<Longrightarrow>
   \<forall>k<n. take (length pat) (drop k cs) \<noteq> pat \<Longrightarrow>
   find_at pat cs i = Some (i + n)"
proof (induction cs arbitrary: i n)
  case Nil
  then show ?case by (cases n) auto
next
  case (Cons c cs)
  show ?case
  proof (cases n)
    case 0
    with Cons.prems show ?thesis by simp
  next
    case (Suc m)
    with Cons.prems have here: "take (length pat) (c # cs) \<noteq> pat" by auto
    from Cons.prems Suc have "take (length pat) (drop m cs) = pat" by simp
    moreover have "\<forall>k<m. take (length pat) (drop k cs) \<noteq> pat"
    proof (intro allI impI)
      fix k assume "k < m"
      then have "Suc k < n" using Suc by simp
      with Cons.prems(2) have "take (length pat) (drop (Suc k) (c # cs)) \<noteq> pat" by blast
      then show "take (length pat) (drop k cs) \<noteq> pat" by simp
    qed
    ultimately have "find_at pat cs (Suc i) = Some (Suc i + m)" by (rule Cons.IH)
    with here Suc show ?thesis by simp
  qed
qed

lemma find_str_first_occurrence:
  "first_occurrence pat s n \<Longrightarrow> find_str s pat 0 = Some n"
  using find_at_first [of pat n s 0] by (simp add: first_occurrence_def find_str_def)

section \<open>Properties of extractJsonValue\<close>

lemma value_pos_Nil: "value_pos [] key = None"
  by (simp add: value_pos_def find_str_def)

lemma extractJsonValue_Nil: "extractJsonValue [] key = []"
  by (subst extractJsonValue.simps)
     (simp add: find_str_Nil extract_simple_def value_pos_Nil split: option.split)

lemma brace_span_unbalanced:
  "scan_braces (drop pos s) pos 0 = None \<Longrightarrow> brace_span s pos = []"
  by (simp add: brace_span_def matching_end_def substr_def)

text \<open>
  Claim C4. With the path \<^verbatim>\<open>main.temp\<close>, the buffer
  \<^verbatim>\<open>{"main":{"temp":21.5,"humidity":60}}\<close> gives the text \<^verbatim>\<open>21.5\<close>, and the buffer
  \<^verbatim>\<open>{"other":{"temp":1}}\<close> gives the empty result.
\<close>

theorem nested_path_example:
  \<open>extractJsonValue ''{"main":{"temp":21.5,"humidity":60}}'' ''main.temp'' = ''21.5''
   \<and> extractJsonValue ''{"other":{"temp":1}}'' ''main.temp'' = []\<close>
  by code_simp

text \<open>
  Claim C5. When the path has a dot, the quoted parent key and the \<^verbatim>\<open>{\<close> after it
  are found, but the brace counter never returns to zero before the end of the
  buffer, the result is empty: no part of the unclosed object is returned.
\<close>

theorem unbalanced_parent_absent:
  assumes "find_str key ''.'' 0 = Some dot_pos"
    and "find_str json (dquote # substr key 0 dot_pos @ [dquote]) 0 = Some p"
    and "find_str json ''{'' p = Some pos"
    and "scan_braces (drop pos json) pos 0 = None"
  shows "extractJsonValue json key = []"
  using assms
  by (subst extractJsonValue.simps) (simp add: brace_span_unbalanced extractJsonValue_Nil)

theorem unbalanced_parent_absent_witness:
  \<open>find_str ''main.temp'' ''.'' 0 = Some 4
   \<and> find_str ''{"main":{"temp":21.5,"hum'' (dquote # substr ''main.temp'' 0 4 @ [dquote]) 0
       = Some 1
   \<and> find_str ''{"main":{"temp":21.5,"hum'' ''{'' 1 = Some 8
   \<and> scan_braces (drop 8 ''{"main":{"temp":21.5,"hum'') 8 0 = None
   \<and> extractJsonValue ''{"main":{"temp":21.5,"hum'' ''main.temp'' = []\<close>
proof -
  have a: "find_str ''main.temp'' ''.'' 0 = Some 4"
    by code_simp
  have b: \<open>find_str ''{"main":{"temp":21.5,"hum'' (dquote # substr ''main.temp'' 0 4 @ [dquote]) 0
      = Some 1\<close>
    by code_simp
  have c: \<open>find_str ''{"main":{"temp":21.5,"hum'' ''{'' 1 = Some 8\<close>
    by code_simp
  have d: \<open>scan_braces (drop 8 ''{"main":{"temp":21.5,"hum'') 8 0 = None\<close>
    by code_simp
  from a b c d unbalanced_parent_absent [OF a b c d] show ?thesis by blast
qed

subsection \<open>The value of a key without a dot\<close>

lemma skip_ws_takeWhile:
  "skip_ws cs pos = pos + length (takeWhile (\<lambda>c. c = CHR '' '' \<or> c = tab) cs)"
  by (induction cs arbitrary: pos) auto

lemma value_pos_in_range: "value_pos json key = Some pos \<Longrightarrow> pos < length json"
  by (auto simp: value_pos_def Let_def split: option.splits if_splits)

lemma extractJsonValue_single:
  "find_str key ''.'' 0 = None \<Longrightarrow> extractJsonValue json key = extract_simple json key"
  by (subst extractJsonValue.simps) simp

text \<open>
  Where \<open>value_pos\<close> points: after the first colon that follows the first quoted
  occurrence of the key, at the first character that is neither a space nor a tab.
\<close>

lemma value_pos_first_nonblank:
  assumes "value_pos json key = Some pos"
  shows "\<exists>p q. find_str json (dquote # key @ [dquote]) 0 = Some p
           \<and> find_str json '':'' p = Some q
           \<and> q < pos \<and> pos < length json
           \<and> (\<forall>i. q < i \<and> i < pos \<longrightarrow> json ! i = CHR '' '' \<or> json ! i = tab)
           \<and> json ! pos \<noteq> CHR '' '' \<and> json ! pos \<noteq> tab"
proof -
  define blank where "blank = (\<lambda>c. c = CHR '' '' \<or> c = tab)"
  from assms obtain p q where p: "find_str json (dquote # key @ [dquote]) 0 = Some p"
    and q: "find_str json '':'' p = Some q"
    and pos: "pos = skip_ws (drop (q + 1) json) (q + 1)"
    and len: "pos < length json"
    by (auto simp: value_pos_def Let_def split: option.splits if_splits)
  define tw where "tw = takeWhile blank (drop (q + 1) json)"
  have pos': "pos = q + 1 + length tw"
    using pos by (simp add: skip_ws_takeWhile tw_def blank_def)
  have between: "blank (json ! i)" if "q < i" "i < pos" for i
  proof -
    define k where "k = i - (q + 1)"
    from that pos' have k: "k < length tw" and i: "i = q + 1 + k" by (auto simp: k_def)
    from k have "tw ! k = drop (q + 1) json ! k"
      unfolding tw_def by (rule takeWhile_nth)
    also have "\<dots> = json ! i" using i len pos' k by simp
    finally have "json ! i = tw ! k" by simp
    moreover have "tw ! k \<in> set tw" using k by simp
    then have "blank (tw ! k)" unfolding tw_def by (rule set_takeWhileD [THEN conjunct2])
    ultimately show ?thesis by simp
  qed
  have "length tw < length (drop (q + 1) json)" using len pos' by simp
  then have "\<not> blank (drop (q + 1) json ! length tw)"
    unfolding tw_def by (rule nth_length_takeWhile)
  moreover have "drop (q + 1) json ! length tw = json ! pos" using len pos' by simp
  ultimately have "\<not> blank (json ! pos)" by simp
  with p q pos' len between show ?thesis unfolding blank_def by auto
qed

text \<open>
  The usual shape of an object member: when the first quoted occurrence of the key is
  followed by text without a colon, a colon, spaces and tabs, and then a character
  \<open>v\<close> that is neither, \<open>value_pos\<close> is the index of \<open>v\<close>. The key itself must not
  contain a colon: the search for the colon starts at the key's opening quote.
\<close>

lemma value_pos_member:
  assumes first: "find_str json (dquote # key @ [dquote]) 0 = Some (length pre)"
    and shape: "json = pre @ (dquote # key @ [dquote]) @ sp1 @ CHR '':'' # sp2 @ v # rest"
    and key: "CHR '':'' \<notin> set key"
    and sp1: "CHR '':'' \<notin> set sp1"
    and sp2: "\<forall>c \<in> set sp2. c = CHR '' '' \<or> c = tab"
    and v: "v \<noteq> CHR '' ''" "v \<noteq> tab"
  shows "value_pos json key = Some (length pre + (length key + 2) + length sp1 + 1 + length sp2)
    \<and> drop (length pre + (length key + 2) + length sp1 + 1 + length sp2) json = v # rest"
proof -
  define q where "q = length pre + (length key + 2) + length sp1"
  have "drop (length pre) json = ((dquote # key @ [dquote]) @ sp1) @ CHR '':'' # sp2 @ v # rest"
    by (simp add: shape)
  moreover have "CHR '':'' \<notin> set ((dquote # key @ [dquote]) @ sp1)"
    using key sp1 by simp
  ultimately have "find_at '':'' (drop (length pre) json) (length pre)
      = Some (length pre + length ((dquote # key @ [dquote]) @ sp1))"
    using find_at_first_char [of "CHR '':''" "(dquote # key @ [dquote]) @ sp1"
        "sp2 @ v # rest" "length pre"]
    by simp
  then have colon: "find_str json '':'' (length pre) = Some q"
    by (simp add: find_str_def shape q_def)
  define A where "A = pre @ (dquote # key @ [dquote]) @ sp1 @ [CHR '':'']"
  have j: "json = A @ sp2 @ v # rest" and j': "json = (A @ sp2) @ v # rest"
    by (simp_all add: shape A_def)
  have la: "q + 1 = length A" and la': "q + 1 + length sp2 = length (A @ sp2)"
    by (simp_all add: A_def q_def)
  have d: "drop (q + 1) json = sp2 @ v # rest"
    unfolding la by (subst j) simp
  have "takeWhile (\<lambda>c. c = CHR '' '' \<or> c = tab) (sp2 @ v # rest) = sp2"
    using sp2 v by (simp add: takeWhile_append2)
  with d have s: "skip_ws (drop (q + 1) json) (q + 1) = q + 1 + length sp2"
    by (simp add: skip_ws_takeWhile)
  have len: "q + 1 + length sp2 < length json"
    unfolding la' by (subst j') simp
  have "drop (q + 1 + length sp2) json = v # rest"
    unfolding la' by (subst j') simp
  with first colon s len show ?thesis
    by (simp add: value_pos_def q_def)
qed

lemma read_string_value_literal:
  "list_all plain_ok items \<Longrightarrow>
   read_string_value (concat (map encode_item items) @ dquote # rest) = map spec_decode_item items"
proof (induction items)
  case Nil
  then show ?case by simp
next
  case (Cons it items)
  then show ?case by (cases it) auto
qed

lemma read_scalar_value_takeWhile:
  "read_scalar_value cs = takeWhile (\<lambda>c. \<not> delimiter c) cs"
  by (induction cs) (auto simp: delimiter_def)

lemma string_value_at:
  assumes "find_str key ''.'' 0 = None"
    and "value_pos json key = Some pos"
    and "drop pos json = encode_literal items @ rest"
    and "list_all plain_ok items"
  shows "extractJsonValue json key = map spec_decode_item items"
proof -
  from assms(2) have "pos < length json" by (rule value_pos_in_range)
  then have "json ! pos = hd (drop pos json)" by (simp add: hd_drop_conv_nth)
  with assms(3) have q: "json ! pos = dquote" by (simp add: encode_literal_def)
  have "drop (pos + 1) json = tl (drop pos json)" by (simp add: drop_Suc tl_drop)
  with assms(3) have "drop (pos + 1) json = concat (map encode_item items) @ dquote # rest"
    by (simp add: encode_literal_def)
  with q assms(1,2,4) show ?thesis
    by (simp add: extractJsonValue_single extract_simple_def read_string_value_literal)
qed

lemma scalar_value_at:
  assumes "find_str key ''.'' 0 = None"
    and "value_pos json key = Some pos"
    and "json ! pos \<noteq> dquote"
  shows "extractJsonValue json key = takeWhile (\<lambda>c. \<not> delimiter c) (drop pos json)"
  using assms
  by (simp add: extractJsonValue_single extract_simple_def read_scalar_value_takeWhile)

text \<open>
  Claim C3, as the code has it. Take a buffer that reads: some text \<open>pre\<close>, the
  quoted key, text \<open>sp1\<close> without a colon, a colon, spaces and tabs \<open>sp2\<close>, a
  quoted string literal, and the rest. When the key has neither a dot nor a colon and
  its quoted form does not occur in the buffer before this place, the result is the
  decoded contents of the literal: one character per item, \<^verbatim>\<open>\n\<close> and \<^verbatim>\<open>\t\<close>
  resolved to newline and tab, any other escaped character kept as itself, and
  nothing of the text after the closing quote.
\<close>

theorem string_member_decoded:
  assumes "CHR ''.'' \<notin> set key" and "CHR '':'' \<notin> set key"
    and "json = pre @ (dquote # key @ [dquote]) @ sp1 @ CHR '':'' # sp2
                  @ encode_literal items @ rest"
    and "first_occurrence (dquote # key @ [dquote]) json (length pre)"
    and "CHR '':'' \<notin> set sp1"
    and "\<forall>c \<in> set sp2. c = CHR '' '' \<or> c = tab"
    and "list_all plain_ok items"
  shows "extractJsonValue json key = map spec_decode_item items"
proof -
  let ?tail = "concat (map encode_item items) @ dquote # rest"
  have shape: "json = pre @ (dquote # key @ [dquote]) @ sp1 @ CHR '':'' # sp2 @ dquote # ?tail"
    using assms(3) by (simp add: encode_literal_def)
  have first: "find_str json (dquote # key @ [dquote]) 0 = Some (length pre)"
    using assms(4) by (rule find_str_first_occurrence)
  from value_pos_member [OF first shape assms(2) assms(5) assms(6)]
  obtain pos where pos: "value_pos json key = Some pos" and d: "drop pos json = dquote # ?tail"
    by auto
  from d have "drop pos json = encode_literal items @ rest"
    by (simp add: encode_literal_def)
  with assms(1,7) pos show ?thesis
    by (intro string_value_at) (simp_all add: find_str_absent)
qed

text \<open>
  The specification's example, as the second member of an object: the value
  \<^verbatim>\<open>"a\nb"\<close> of the key \<^verbatim>\<open>k\<close> yields \<^verbatim>\<open>a\<close>, a newline and \<^verbatim>\<open>b\<close>.
\<close>

theorem string_member_decoded_witness:
  \<open>CHR ''.'' \<notin> set ''k'' \<and> CHR '':'' \<notin> set ''k''
   \<and> ''{"id":7, "k" : "a'' @ [backslash, CHR ''n''] @ ''b"}''
       = ''{"id":7, '' @ (dquote # ''k'' @ [dquote]) @ '' '' @ CHR '':'' # '' ''
          @ encode_literal [Plain CHR ''a'', Esc CHR ''n'', Plain CHR ''b''] @ ''}''
   \<and> first_occurrence (dquote # ''k'' @ [dquote])
        (''{"id":7, "k" : "a'' @ [backslash, CHR ''n''] @ ''b"}'') (length ''{"id":7, '')
   \<and> CHR '':'' \<notin> set '' ''
   \<and> list_all plain_ok [Plain CHR ''a'', Esc CHR ''n'', Plain CHR ''b'']
   \<and> extractJsonValue (''{"id":7, "k" : "a'' @ [backslash, CHR ''n''] @ ''b"}'') ''k''
       = [CHR ''a'', newline, CHR ''b'']\<close>
proof -
  let ?json = \<open>''{"id":7, "k" : "a'' @ [backslash, CHR ''n''] @ ''b"}''\<close>
  let ?items = "[Plain CHR ''a'', Esc CHR ''n'', Plain CHR ''b'']"
  have a: "CHR ''.'' \<notin> set ''k''" and b: "CHR '':'' \<notin> set ''k''"
    by simp_all
  have c: \<open>?json = ''{"id":7, '' @ (dquote # ''k'' @ [dquote]) @ '' '' @ CHR '':'' # '' ''
          @ encode_literal ?items @ ''}''\<close>
    by code_simp
  have d: \<open>first_occurrence (dquote # ''k'' @ [dquote]) ?json (length ''{"id":7, '')\<close>
    by code_simp
  have e: "CHR '':'' \<notin> set '' ''" and f: "\<forall>c \<in> set '' ''. c = CHR '' '' \<or> c = tab"
    by simp_all
  have g: "list_all plain_ok ?items"
    by simp
  have "extractJsonValue ?json ''k'' = map spec_decode_item ?items"
    using a b c d e f g by (rule string_member_decoded)
  then have h: "extractJsonValue ?json ''k'' = [CHR ''a'', newline, CHR ''b'']"
    by simp
  from a b c d e g h show ?thesis by (intro conjI)
qed

text \<open>
  Claim C3 as stated, for every buffer in which the value of the key is a quoted
  string literal, fails in three ways. In \<^verbatim>\<open>{"a":"k","b":"x","k":"v"}\<close> the quoted
  key \<^verbatim>\<open>"k"\<close> first occurs as the value of \<^verbatim>\<open>a\<close>, and the result is \<^verbatim>\<open>x\<close>, the
  value after the next colon, not \<^verbatim>\<open>v\<close>. In \<^verbatim>\<open>{"k":<LF>"v"}\<close> the line feed after
  the colon is not skipped, and the result is empty. In \<^verbatim>\<open>{"a:b":"v"}\<close> the search
  for the colon starts at the opening quote of the key and stops inside it.
\<close>

theorem string_member_misread:
  \<open>''{"a":"k","b":"x","k":"v"}''
       = ''{"a":"k","b":"x",'' @ (dquote # ''k'' @ [dquote]) @ CHR '':'' #
           encode_literal [Plain CHR ''v''] @ ''}''
   \<and> extractJsonValue ''{"a":"k","b":"x","k":"v"}'' ''k'' = ''x''
   \<and> ''{"k":'' @ [newline] @ encode_literal [Plain CHR ''v''] @ ''}''
       = ''{'' @ (dquote # ''k'' @ [dquote]) @ CHR '':'' # [newline] @
           encode_literal [Plain CHR ''v''] @ ''}''
   \<and> extractJsonValue (''{"k":'' @ [newline] @ encode_literal [Plain CHR ''v''] @ ''}'') ''k''
       = []
   \<and> ''{"a:b":"v"}''
       = ''{'' @ (dquote # ''a:b'' @ [dquote]) @ CHR '':'' #
           encode_literal [Plain CHR ''v''] @ ''}''
   \<and> extractJsonValue ''{"a:b":"v"}'' ''a:b''
       = ''b'' @ [dquote] @ '':'' @ [dquote] @ ''v'' @ [dquote]
   \<and> map spec_decode_item [Plain CHR ''v''] = ''v''\<close>
  by code_simp

text \<open>
  Claim C6, as the code has it. Take a buffer that reads: some text \<open>pre\<close>, the
  quoted key, text \<open>sp1\<close> without a colon, a colon, spaces and tabs \<open>sp2\<close>, a
  character \<open>v\<close> that is neither a space, a tab nor a quote, and the rest. When the
  key has neither a dot nor a colon and its quoted form does not occur in the buffer
  before this place, the result is exactly the text from \<open>v\<close> up to, and not
  including, the first character of the delimiter set: no character of the result is
  a delimiter, so it holds no space and no newline, and it starts with \<open>v\<close>.
\<close>

theorem scalar_member_literal:
  assumes "CHR ''.'' \<notin> set key" and "CHR '':'' \<notin> set key"
    and "json = pre @ (dquote # key @ [dquote]) @ sp1 @ CHR '':'' # sp2 @ v # rest"
    and "first_occurrence (dquote # key @ [dquote]) json (length pre)"
    and "CHR '':'' \<notin> set sp1"
    and "\<forall>c \<in> set sp2. c = CHR '' '' \<or> c = tab"
    and "v \<noteq> CHR '' ''" and "v \<noteq> tab" and "v \<noteq> dquote"
  shows "extractJsonValue json key = takeWhile (\<lambda>c. \<not> delimiter c) (v # rest)
    \<and> (\<forall>c \<in> set (extractJsonValue json key). \<not> delimiter c)
    \<and> (extractJsonValue json key \<noteq> [] \<longrightarrow> hd (extractJsonValue json key) = v)"
proof -
  have first: "find_str json (dquote # key @ [dquote]) 0 = Some (length pre)"
    using assms(4) by (rule find_str_first_occurrence)
  from value_pos_member [OF first assms(3) assms(2) assms(5) assms(6) assms(7) assms(8)]
  obtain pos where pos: "value_pos json key = Some pos" and d: "drop pos json = v # rest"
    by auto
  from pos have "pos < length json" by (rule value_pos_in_range)
  then have "json ! pos = hd (drop pos json)" by (simp add: hd_drop_conv_nth)
  with d assms(9) have "json ! pos \<noteq> dquote" by simp
  with assms(1) pos
  have "extractJsonValue json key = takeWhile (\<lambda>c. \<not> delimiter c) (drop pos json)"
    by (intro scalar_value_at) (simp_all add: find_str_absent)
  with d have r: "extractJsonValue json key = takeWhile (\<lambda>c. \<not> delimiter c) (v # rest)"
    by simp
  have "\<forall>c \<in> set (takeWhile (\<lambda>c. \<not> delimiter c) (v # rest)). \<not> delimiter c"
    by (auto dest: set_takeWhileD)
  moreover have "takeWhile (\<lambda>c. \<not> delimiter c) (v # rest) \<noteq> []
      \<longrightarrow> hd (takeWhile (\<lambda>c. \<not> delimiter c) (v # rest)) = v"
    by simp
  ultimately show ?thesis unfolding r by blast
qed

theorem scalar_member_literal_witness:
  \<open>CHR ''.'' \<notin> set ''humidity'' \<and> CHR '':'' \<notin> set ''humidity''
   \<and> ''{"temp":21.5, "humidity": 60 ,"x":1}''
       = ''{"temp":21.5, '' @ (dquote # ''humidity'' @ [dquote]) @ [] @ CHR '':'' # '' ''
          @ CHR ''6'' # ''0 ,"x":1}''
   \<and> first_occurrence (dquote # ''humidity'' @ [dquote])
        ''{"temp":21.5, "humidity": 60 ,"x":1}'' (length ''{"temp":21.5, '')
   \<and> extractJsonValue ''{"temp":21.5, "humidity": 60 ,"x":1}'' ''humidity'' = ''60''\<close>
proof -
  let ?json = \<open>''{"temp":21.5, "humidity": 60 ,"x":1}''\<close>
  have a: "CHR ''.'' \<notin> set ''humidity''" and b: "CHR '':'' \<notin> set ''humidity''"
    by simp_all
  have c: \<open>?json = ''{"temp":21.5, '' @ (dquote # ''humidity'' @ [dquote]) @ [] @ CHR '':'' # '' ''
          @ CHR ''6'' # ''0 ,"x":1}''\<close>
    by code_simp
  have d: \<open>first_occurrence (dquote # ''humidity'' @ [dquote]) ?json (length ''{"temp":21.5, '')\<close>
    by code_simp
  have e: "CHR '':'' \<notin> set []" and f: "\<forall>c \<in> set '' ''. c = CHR '' '' \<or> c = tab"
    and g: "CHR ''6'' \<noteq> CHR '' ''" "CHR ''6'' \<noteq> tab" "CHR ''6'' \<noteq> dquote"
    by simp_all
  have t: \<open>takeWhile (\<lambda>c. \<not> delimiter c) (CHR ''6'' # ''0 ,"x":1}'') = ''60''\<close>
    by code_simp
  have \<open>extractJsonValue ?json ''humidity''
      = takeWhile (\<lambda>c. \<not> delimiter c) (CHR ''6'' # ''0 ,"x":1}'')\<close>
    using scalar_member_literal [OF a b c d e f g] by (rule conjunct1)
  with t have h: "extractJsonValue ?json ''humidity'' = ''60''"
    by (simp only:)
  from a b c d h show ?thesis by (intro conjI)
qed

text \<open>
  Claim C6 as stated, for every well-formed object and every existing key with a
  value that is not a string, fails in three ways. The tab is skipped before a value
  but is not in the delimiter set, so in \<^verbatim>\<open>{"a":1<TAB>}\<close> the value of \<^verbatim>\<open>a\<close> comes
  back as \<^verbatim>\<open>1<TAB>\<close>, with whitespace at its end. In \<^verbatim>\<open>{"a":"k","b":3,"k":2}\<close> the
  quoted key \<^verbatim>\<open>"k"\<close> first occurs as the value of \<^verbatim>\<open>a\<close>, and the result is \<^verbatim>\<open>3\<close>,
  not the \<^verbatim>\<open>2\<close> after the colon of \<^verbatim>\<open>k\<close>. In \<^verbatim>\<open>{"a:b":2}\<close> the search for the
  colon stops inside the key.
\<close>

theorem scalar_member_misread:
  \<open>extractJsonValue (''{"a":1'' @ [tab] @ ''}'') ''a'' = [CHR ''1'', tab]
   \<and> \<not> spec_no_surrounding_whitespace (extractJsonValue (''{"a":1'' @ [tab] @ ''}'') ''a'')
   \<and> ''{"a":"k","b":3,"k":2}''
       = ''{"a":"k","b":3,'' @ (dquote # ''k'' @ [dquote]) @ CHR '':'' # ''2}''
   \<and> takeWhile (\<lambda>c. \<not> delimiter c) ''2}'' = ''2''
   \<and> extractJsonValue ''{"a":"k","b":3,"k":2}'' ''k'' = ''3''
   \<and> ''{"a:b":2}'' = ''{'' @ (dquote # ''a:b'' @ [dquote]) @ CHR '':'' # ''2}''
   \<and> extractJsonValue ''{"a:b":2}'' ''a:b'' = ''b'' @ [dquote] @ '':2''\<close>
  by code_simp

subsection \<open>The store\<close>

lemma extractJsonValue_st_refines:
  "json < length st \<Longrightarrow>
   extractJsonValue_st st json key = (extractJsonValue (st ! json) key, st)"
proof (induction key arbitrary: st json rule: length_induct)
  case (1 key)
  show ?case
  proof (cases "find_str key ''.'' 0")
    case None
    with "1.prems" show ?thesis
      by (subst extractJsonValue_st.simps, subst extractJsonValue.simps)
         (simp add: Let_def nth_append)
  next
    case (Some dot_pos)
    then have "key \<noteq> []" by (auto simp: find_str_def)
    then have shorter: "length (drop (dot_pos + 1) key) < length key" by simp
    have rec: "extractJsonValue_st (st @ [b]) (length st) (drop (Suc dot_pos) key)
        = (extractJsonValue b (drop (Suc dot_pos) key), st @ [b])" for b
      using "1.IH" shorter by simp
    show ?thesis
      by (subst extractJsonValue_st.simps, subst extractJsonValue.simps)
         (simp add: Let_def Some nth_append rec butlast_list_update split: option.split)
  qed
qed

text \<open>
  Claim C9. A call on a buffer of the store returns a result that depends on the
  contents of the buffer and on the key alone, and leaves the store as it found it:
  the buffer is unmodified and nothing of the call stays behind. A second call with
  the same arguments therefore returns the same result.
\<close>

theorem extract_deterministic_stateless:
  assumes "json < length st"
    and "extractJsonValue_st st json key = (v1, st1)"
    and "extractJsonValue_st st1 json key = (v2, st2)"
  shows "v1 = extractJsonValue (st ! json) key \<and> st1 = st \<and> v2 = v1 \<and> st2 = st"
proof -
  have r: "extractJsonValue_st st json key = (extractJsonValue (st ! json) key, st)"
    using assms(1) by (rule extractJsonValue_st_refines)
  from assms(2) have first: "v1 = extractJsonValue (st ! json) key" and st1: "st1 = st"
    unfolding r by auto
  from assms(3) have "v2 = extractJsonValue (st ! json) key" and "st2 = st"
    unfolding st1 r by auto
  with first st1 show ?thesis by simp
qed

theorem extract_deterministic_stateless_witness:
  \<open>(0::nat) < length [''{"main":{"temp":21.5}}'', ''metric'']
   \<and> extractJsonValue_st [''{"main":{"temp":21.5}}'', ''metric''] 0 ''main.temp''
       = (''21.5'', [''{"main":{"temp":21.5}}'', ''metric''])
   \<and> ''21.5'' = extractJsonValue ([''{"main":{"temp":21.5}}'', ''metric''] ! 0) ''main.temp''\<close>
proof -
  have a: \<open>(0::nat) < length [''{"main":{"temp":21.5}}'', ''metric'']\<close>
    by simp
  have b: \<open>extractJsonValue_st [''{"main":{"temp":21.5}}'', ''metric''] 0 ''main.temp''
       = (''21.5'', [''{"main":{"temp":21.5}}'', ''metric''])\<close>
    by code_simp
  from extract_deterministic_stateless [OF a b b]
  have c: \<open>''21.5'' = extractJsonValue ([''{"main":{"temp":21.5}}'', ''metric''] ! 0) ''main.temp''\<close>
    by (rule conjunct1)
  from a b c show ?thesis by (intro conjI)
qed

section \<open>Properties of fetchWeather\<close>

lemma fetchWeather_failed:
  "fetchWeather atof atol InitFailed = WeatherData_init"
  "fetchWeather atof atol PerformFailed = WeatherData_init"
  "code \<noteq> 200 \<Longrightarrow> fetchWeather atof atol (Responded code body) = WeatherData_init"
  by (simp_all add: fetchWeather_def)

lemma fetchWeather_200_valid: "valid (fetchWeather atof atol (Responded 200 body))"
  by (simp add: fetchWeather_def Let_def split: option.split)

text \<open>
  \<^verbatim>\<open>fetchWeather\<close> reports success exactly for a transfer that ended with status 200,
  and the only record it returns with \<^verbatim>\<open>valid == false\<close> is the default one.
\<close>

lemma fetchWeather_valid_iff:
  "valid (fetchWeather atof atol outcome) \<longleftrightarrow> (\<exists>body. outcome = Responded 200 body)"
proof (cases outcome)
  case (Responded code body)
  then show ?thesis
    by (cases "code = 200")
       (simp_all add: fetchWeather_200_valid fetchWeather_failed WeatherData_init_def)
qed (simp_all add: fetchWeather_failed WeatherData_init_def)

lemma fetchWeather_invalid:
  "\<not> valid (fetchWeather atof atol outcome) \<Longrightarrow> fetchWeather atof atol outcome = WeatherData_init"
proof (cases outcome)
  case (Responded code body)
  assume "\<not> valid (fetchWeather atof atol outcome)"
  with Responded have "code \<noteq> 200" using fetchWeather_200_valid [of atof atol body] by auto
  with Responded show ?thesis by (simp add: fetchWeather_failed)
qed (simp_all add: fetchWeather_failed)

text \<open>
  Claim C10, as the code has it. After a transfer that ended with status 200 the
  record is valid whatever the body holds. A numeric field whose extraction is empty
  keeps the constructor's zero. \<^verbatim>\<open>condition_main\<close> keeps \<^verbatim>\<open>"Unknown"\<close>, and
  \<^verbatim>\<open>condition_description\<close> stays empty, when no first object of the \<^verbatim>\<open>weather\<close>
  array is located.
\<close>

theorem fetch_200_fields:
  assumes "w = fetchWeather atof atol (Responded 200 body)"
  shows "valid w
    \<and> (extractJsonValue body ''main.temp'' = [] \<longrightarrow> temp w = 0)
    \<and> (extractJsonValue body ''main.feels_like'' = [] \<longrightarrow> feels_like w = 0)
    \<and> (extractJsonValue body ''main.humidity'' = [] \<longrightarrow> humidity w = 0)
    \<and> (extractJsonValue body ''wind.speed'' = [] \<longrightarrow> wind_speed w = 0)
    \<and> (extractJsonValue body ''dt'' = [] \<longrightarrow> timestamp w = 0)
    \<and> (first_weather_obj body = None \<longrightarrow>
          condition_main w = ''Unknown'' \<and> condition_description w = [])"
  unfolding assms
  by (simp add: fetchWeather_def WeatherData_init_def Let_def split: option.split)

theorem fetch_200_fields_witness:
  \<open>valid (fetchWeather (\<lambda>s. 0 :: int) (\<lambda>s. 0) (Responded 200 ''{"cod":200}''))
   \<and> extractJsonValue ''{"cod":200}'' ''main.temp'' = []
   \<and> temp (fetchWeather (\<lambda>s. 0 :: int) (\<lambda>s. 0) (Responded 200 ''{"cod":200}'')) = 0
   \<and> extractJsonValue ''{"cod":200}'' ''dt'' = []
   \<and> timestamp (fetchWeather (\<lambda>s. 0 :: int) (\<lambda>s. 0) (Responded 200 ''{"cod":200}'')) = 0
   \<and> first_weather_obj ''{"cod":200}'' = None
   \<and> condition_main (fetchWeather (\<lambda>s. 0 :: int) (\<lambda>s. 0) (Responded 200 ''{"cod":200}''))
       = ''Unknown''\<close>
proof -
  have a: \<open>extractJsonValue ''{"cod":200}'' ''main.temp'' = []\<close>
    by code_simp
  have b: \<open>extractJsonValue ''{"cod":200}'' ''dt'' = []\<close>
    by code_simp
  have c: \<open>first_weather_obj ''{"cod":200}'' = None\<close>
    by code_simp
  from fetch_200_fields [OF refl, of "\<lambda>s. 0 :: int" "\<lambda>s. 0" \<open>''{"cod":200}''\<close>] a b c
  show ?thesis by blast
qed

text \<open>
  Claim C10 as stated fails for \<^verbatim>\<open>condition_main\<close>: on the body
  \<^verbatim>\<open>{"weather":[{"id":800}],"dt":5}\<close> the first object of the array is located, the
  extraction of \<^verbatim>\<open>main\<close> inside it is empty, and the assignment of line 229 replaces
  \<^verbatim>\<open>"Unknown"\<close> by the empty string.
\<close>

theorem condition_main_overwritten_example:
  \<open>first_weather_obj ''{"weather":[{"id":800}],"dt":5}'' = Some ''{"id":800}''
   \<and> extractJsonValue ''{"id":800}'' ''main'' = []
   \<and> valid (fetchWeather (\<lambda>s. 0 :: int) (\<lambda>s. 0)
        (Responded 200 ''{"weather":[{"id":800}],"dt":5}''))
   \<and> condition_main (fetchWeather (\<lambda>s. 0 :: int) (\<lambda>s. 0)
        (Responded 200 ''{"weather":[{"id":800}],"dt":5}'')) \<noteq> ''Unknown''\<close>
  by code_simp

text \<open>
  Claim C7. On \<^verbatim>\<open>{"weather":[{"main":"Clouds","description":"overcast"}]}\<close> the
  search for the quoted key \<^verbatim>\<open>weather\<close>, the next \<^verbatim>\<open>[\<close>, the next \<^verbatim>\<open>{\<close> and the
  brace-balanced span from there yields the first element, the extraction of
  \<^verbatim>\<open>main\<close> inside it yields \<^verbatim>\<open>Clouds\<close>, and that is the \<^verbatim>\<open>condition_main\<close>
  \<^verbatim>\<open>fetchWeather\<close> returns.
\<close>

theorem first_array_element_example:
  \<open>first_weather_obj ''{"weather":[{"main":"Clouds","description":"overcast"}]}''
     = Some ''{"main":"Clouds","description":"overcast"}''
   \<and> extractJsonValue ''{"main":"Clouds","description":"overcast"}'' ''main'' = ''Clouds''
   \<and> condition_main (fetchWeather atof atol
         (Responded 200 ''{"weather":[{"main":"Clouds","description":"overcast"}]}''))
       = ''Clouds''\<close>
  by code_simp

section \<open>Properties of the loop\<close>

lemma loop_body_deadline:
  "ev_deadline (fst (loop_body atof atol units weather_refresh env s)) = next_time s"
  "next_time (snd (loop_body atof atol units weather_refresh env s))
     = (next_time s)\<lparr>tv_sec := tv_sec (next_time s) + 1\<rparr>"
  by (simp_all add: loop_body_def Let_def)

lemma loop_body_refresh:
  "ev_fetches (fst (loop_body atof atol units weather_refresh env s))
     = (if weather_refresh \<le> tv_sec (next_time s) - last_weather_fetch s then 1 else 0)"
  "last_weather_fetch (snd (loop_body atof atol units weather_refresh env s))
     = (if weather_refresh \<le> tv_sec (next_time s) - last_weather_fetch s
        then tv_sec (next_time s) else last_weather_fetch s)"
  "current_weather (snd (loop_body atof atol units weather_refresh env s))
     = (if weather_refresh \<le> tv_sec (next_time s) - last_weather_fetch s
        then fetchWeather atof atol (fetch_result env) else current_weather s)"
  "ev_record (fst (loop_body atof atol units weather_refresh env s))
     = current_weather (snd (loop_body atof atol units weather_refresh env s))"
  "ev_line (fst (loop_body atof atol units weather_refresh env s))
     = draw_weather_line units
         (current_weather (snd (loop_body atof atol units weather_refresh env s)))"
  by (simp_all add: loop_body_def Let_def)

lemma run_loop_Cons:
  "run_loop atof atol units weather_refresh (env # envs) s
     = (fst (loop_body atof atol units weather_refresh env s)
          # fst (run_loop atof atol units weather_refresh envs
                  (snd (loop_body atof atol units weather_refresh env s))),
        snd (run_loop atof atol units weather_refresh envs
              (snd (loop_body atof atol units weather_refresh env s))))"
  by (simp add: case_prod_beta)

text \<open>
  From any state, the \<open>i\<close>-th iteration waits for the deadline \<open>i\<close> seconds after the
  first one, whatever the environments are.
\<close>

lemma run_loop_deadlines:
  "map ev_deadline (fst (run_loop atof atol units weather_refresh envs s))
     = map (\<lambda>i. (next_time s)\<lparr>tv_sec := tv_sec (next_time s) + int i\<rparr>) [0..<length envs]"
proof (induction envs arbitrary: s)
  case Nil
  show ?case by simp
next
  case (Cons env envs)
  have "map (\<lambda>i. (next_time s)\<lparr>tv_sec := tv_sec (next_time s) + int i\<rparr>) [0..<length (env # envs)]
      = next_time s
        # map (\<lambda>i. (next_time s)\<lparr>tv_sec := tv_sec (next_time s) + 1 + int i\<rparr>) [0..<length envs]"
    by (simp add: upt_conv_Cons map_Suc_upt [symmetric] del: upt_Suc)
  then show ?case
    by (simp add: run_loop_Cons loop_body_deadline Cons.IH del: run_loop.simps upt_Suc)
qed

lemma run_loop_next_time:
  "next_time (snd (run_loop atof atol units weather_refresh envs s))
     = (next_time s)\<lparr>tv_sec := tv_sec (next_time s) + int (length envs)\<rparr>"
proof (induction envs arbitrary: s)
  case Nil
  show ?case by simp
next
  case (Cons env envs)
  show ?case
    by (simp add: run_loop_Cons loop_body_deadline Cons.IH del: run_loop.simps)
qed

lemma run_loop_refresh_rule:
  "refresh_rule refresh_attempt weather_refresh (last_weather_fetch s)
     (fst (run_loop atof atol units weather_refresh envs s))"
proof (induction envs arbitrary: s)
  case Nil
  show ?case by simp
next
  case (Cons env envs)
  from Cons.IH [of "snd (loop_body atof atol units weather_refresh env s)"]
  show ?case
    by (auto simp: run_loop_Cons loop_body_deadline loop_body_refresh refresh_attempt_def
        simp del: run_loop.simps split: if_splits)
qed

lemma run_loop_fetches:
  "list_all2 (\<lambda>env e. ev_fetches e \<le> 1
        \<and> (0 < ev_fetches e \<longrightarrow>
             ev_record e = fetchWeather atof atol (fetch_result env)
             \<and> ev_line e = draw_weather_line units (fetchWeather atof atol (fetch_result env))))
     envs (fst (run_loop atof atol units weather_refresh envs s))"
proof (induction envs arbitrary: s)
  case Nil
  show ?case by simp
next
  case (Cons env envs)
  from Cons.IH [of "snd (loop_body atof atol units weather_refresh env s)"]
  show ?case
    by (simp add: run_loop_Cons loop_body_refresh del: run_loop.simps)
qed

lemma draw_weather_line_init: "draw_weather_line units WeatherData_init = Status ''Loading...''"
  by (simp add: draw_weather_line_def WeatherData_init_def)

text \<open>
  From a state whose record is the default one, every iteration before the first
  one with a successful refresh holds the default record and draws \<^verbatim>\<open>Loading...\<close>.
\<close>

lemma run_loop_loading_until_success:
  "current_weather s = WeatherData_init \<Longrightarrow>
   \<forall>e \<in> set (takeWhile (\<lambda>e. \<not> spec_successful_refresh e)
               (fst (run_loop atof atol units weather_refresh envs s))).
     ev_record e = WeatherData_init \<and> ev_line e = Status ''Loading...''"
proof (induction envs arbitrary: s)
  case Nil
  show ?case by simp
next
  case (Cons env envs)
  let ?step = "loop_body atof atol units weather_refresh env s"
  show ?case
  proof (cases "spec_successful_refresh (fst ?step)")
    case True
    then show ?thesis by (simp add: run_loop_Cons del: run_loop.simps)
  next
    case False
    have rec: "current_weather (snd ?step) = WeatherData_init"
    proof (cases "weather_refresh \<le> tv_sec (next_time s) - last_weather_fetch s")
      case True
      with False have "\<not> valid (fetchWeather atof atol (fetch_result env))"
        by (simp add: spec_successful_refresh_def loop_body_refresh)
      then have "fetchWeather atof atol (fetch_result env) = WeatherData_init"
        by (rule fetchWeather_invalid)
      with True show ?thesis by (simp add: loop_body_refresh)
    next
      case False
      with Cons.prems show ?thesis by (simp add: loop_body_refresh)
    qed
    then have "ev_record (fst ?step) = WeatherData_init"
      and "ev_line (fst ?step) = Status ''Loading...''"
      by (simp_all add: loop_body_refresh draw_weather_line_init)
    with False Cons.IH [OF rec] show ?thesis
      by (simp add: run_loop_Cons del: run_loop.simps)
  qed
qed

text \<open>
  Claim C2. In a run of \<open>N\<close> iterations that starts with the deadline \<open>start\<close>, the
  deadlines waited for are \<open>start\<close>, \<open>start + 1\<close>, ... one per iteration, and the
  deadline the loop holds after the \<open>N\<close>-th iteration is \<open>start + N\<close>: one second is
  added per iteration, whatever the clock readings and the fetch outcomes of the
  iterations were.
\<close>

theorem deadline_sequence:
  "map ev_deadline (fst (run_loop atof atol units weather_refresh envs (initial_state start)))
     = map (\<lambda>i. \<lparr>tv_sec = start + int i, tv_nsec = 0\<rparr>) [0..<length envs]
   \<and> next_time (snd (run_loop atof atol units weather_refresh envs (initial_state start)))
     = \<lparr>tv_sec = start + int (length envs), tv_nsec = 0\<rparr>"
  by (simp add: run_loop_deadlines run_loop_next_time initial_state_def)

text \<open>
  Claim C1, as the code has it. In an iteration whose refresh is due and in which
  \<^verbatim>\<open>fetchWeather\<close> returns an unsuccessful record, the cached record becomes the
  default record (\<^verbatim>\<open>valid == false\<close>), whatever it was before, and the weather line
  drawn is \<^verbatim>\<open>Loading...\<close>; \<^verbatim>\<open>last_weather_fetch\<close> becomes the deadline of the
  iteration, and the iterations that follow wait for the next deadlines, one second
  apart. Every following iteration holds the default record and draws
  \<^verbatim>\<open>Loading...\<close> too, up to the first one in which a refresh succeeds.
\<close>

theorem failed_refresh_resets_record:
  assumes due: "weather_refresh \<le> tv_sec (next_time s) - last_weather_fetch s"
    and failed: "\<not> valid (fetchWeather atof atol (fetch_result env))"
    and step: "loop_body atof atol units weather_refresh env s = (ev, s')"
  shows "current_weather s' = WeatherData_init
    \<and> ev_record ev = WeatherData_init
    \<and> ev_line ev = Status ''Loading...''
    \<and> last_weather_fetch s' = tv_sec (next_time s)
    \<and> ev_deadline ev = next_time s
    \<and> map ev_deadline (fst (run_loop atof atol units weather_refresh envs s'))
        = map (\<lambda>i. (next_time s)\<lparr>tv_sec := tv_sec (next_time s) + 1 + int i\<rparr>) [0..<length envs]
    \<and> (\<forall>e \<in> set (takeWhile (\<lambda>e. \<not> spec_successful_refresh e)
                   (fst (run_loop atof atol units weather_refresh envs s'))).
          ev_record e = WeatherData_init \<and> ev_line e = Status ''Loading...'')"
proof -
  from failed have init: "fetchWeather atof atol (fetch_result env) = WeatherData_init"
    by (rule fetchWeather_invalid)
  from step have ev: "ev = fst (loop_body atof atol units weather_refresh env s)"
    and s': "s' = snd (loop_body atof atol units weather_refresh env s)"
    by simp_all
  have w: "current_weather s' = WeatherData_init"
    unfolding s' using due init by (simp add: loop_body_refresh)
  then have "ev_record ev = WeatherData_init" "ev_line ev = Status ''Loading...''"
    unfolding ev s' by (simp_all add: loop_body_refresh draw_weather_line_init)
  moreover have "last_weather_fetch s' = tv_sec (next_time s)"
    unfolding s' using due by (simp add: loop_body_refresh)
  moreover have "ev_deadline ev = next_time s"
    unfolding ev by (simp add: loop_body_deadline)
  moreover have "map ev_deadline (fst (run_loop atof atol units weather_refresh envs s'))
        = map (\<lambda>i. (next_time s)\<lparr>tv_sec := tv_sec (next_time s) + 1 + int i\<rparr>) [0..<length envs]"
    unfolding s' by (simp add: run_loop_deadlines loop_body_deadline)
  moreover note run_loop_loading_until_success [OF w, of atof atol units weather_refresh envs]
  ultimately show ?thesis using w by blast
qed

text \<open>
  An instance: ten minutes after a successful refresh at second 1000 the server
  answers with status 503, and the valid record is gone; the two iterations that
  follow, in which no refresh is due, draw \<^verbatim>\<open>Loading...\<close> as well.
\<close>

theorem failed_refresh_resets_record_witness:
  "(600 :: int) \<le> tv_sec (next_time
        \<lparr>next_time = \<lparr>tv_sec = 1600, tv_nsec = 0\<rparr>, last_weather_fetch = 1000,
         current_weather = fetchWeather (\<lambda>s. 0 :: int) (\<lambda>s. 0) (Responded 200 example_body)\<rparr>)
      - last_weather_fetch
        \<lparr>next_time = \<lparr>tv_sec = 1600, tv_nsec = 0\<rparr>, last_weather_fetch = 1000,
         current_weather = fetchWeather (\<lambda>s. 0 :: int) (\<lambda>s. 0) (Responded 200 example_body)\<rparr>
   \<and> \<not> valid (fetchWeather (\<lambda>s. 0 :: int) (\<lambda>s. 0)
          (fetch_result (example_tick (Responded 503 ''busy'') 1600)))
   \<and> valid (fetchWeather (\<lambda>s. 0 :: int) (\<lambda>s. 0) (Responded 200 example_body))
   \<and> current_weather (snd (loop_body (\<lambda>s. 0 :: int) (\<lambda>s. 0) ''metric'' 600
        (example_tick (Responded 503 ''busy'') 1600)
        \<lparr>next_time = \<lparr>tv_sec = 1600, tv_nsec = 0\<rparr>, last_weather_fetch = 1000,
         current_weather = fetchWeather (\<lambda>s. 0 :: int) (\<lambda>s. 0) (Responded 200 example_body)\<rparr>))
       = WeatherData_init
   \<and> ev_line (fst (loop_body (\<lambda>s. 0 :: int) (\<lambda>s. 0) ''metric'' 600
        (example_tick (Responded 503 ''busy'') 1600)
        \<lparr>next_time = \<lparr>tv_sec = 1600, tv_nsec = 0\<rparr>, last_weather_fetch = 1000,
         current_weather = fetchWeather (\<lambda>s. 0 :: int) (\<lambda>s. 0) (Responded 200 example_body)\<rparr>))
       = Status ''Loading...''
   \<and> map ev_fetches (fst (run_loop (\<lambda>s. 0 :: int) (\<lambda>s. 0) ''metric'' 600
        [example_tick (Responded 200 example_body) 1601,
         example_tick (Responded 200 example_body) 1602]
        (snd (loop_body (\<lambda>s. 0 :: int) (\<lambda>s. 0) ''metric'' 600
        (example_tick (Responded 503 ''busy'') 1600)
        \<lparr>next_time = \<lparr>tv_sec = 1600, tv_nsec = 0\<rparr>, last_weather_fetch = 1000,
         current_weather = fetchWeather (\<lambda>s. 0 :: int) (\<lambda>s. 0) (Responded 200 example_body)\<rparr>))))
       = [0, 0]
   \<and> list_all (\<lambda>e. ev_line e = Status ''Loading...'')
       (fst (run_loop (\<lambda>s. 0 :: int) (\<lambda>s. 0) ''metric'' 600
        [example_tick (Responded 200 example_body) 1601,
         example_tick (Responded 200 example_body) 1602]
        (snd (loop_body (\<lambda>s. 0 :: int) (\<lambda>s. 0) ''metric'' 600
        (example_tick (Responded 503 ''busy'') 1600)
        \<lparr>next_time = \<lparr>tv_sec = 1600, tv_nsec = 0\<rparr>, last_weather_fetch = 1000,
         current_weather = fetchWeather (\<lambda>s. 0 :: int) (\<lambda>s. 0) (Responded 200 example_body)\<rparr>))))"
proof -
  let ?s = "\<lparr>next_time = \<lparr>tv_sec = 1600, tv_nsec = 0\<rparr>, last_weather_fetch = 1000,
         current_weather = fetchWeather (\<lambda>s. 0 :: int) (\<lambda>s. 0) (Responded 200 example_body)\<rparr>"
  let ?env = "example_tick (Responded 503 ''busy'') 1600"
  let ?step = "loop_body (\<lambda>s. 0 :: int) (\<lambda>s. 0) ''metric'' 600 ?env ?s"
  let ?envs = "[example_tick (Responded 200 example_body) 1601,
         example_tick (Responded 200 example_body) 1602]"
  let ?evs = "fst (run_loop (\<lambda>s. 0 :: int) (\<lambda>s. 0) ''metric'' 600 ?envs (snd ?step))"
  have due: "(600 :: int) \<le> tv_sec (next_time ?s) - last_weather_fetch ?s"
    by simp
  have failed: "\<not> valid (fetchWeather (\<lambda>s. 0 :: int) (\<lambda>s. 0) (fetch_result ?env))"
    by (simp add: example_tick_def fetchWeather_failed WeatherData_init_def)
  have ok: "valid (fetchWeather (\<lambda>s. 0 :: int) (\<lambda>s. 0) (Responded 200 example_body))"
    by (rule fetchWeather_200_valid)
  have step: "?step = (fst ?step, snd ?step)"
    by simp
  have fetches: "map ev_fetches ?evs = [0, 0]"
    by code_simp
  have "list_all (\<lambda>e. \<not> spec_successful_refresh e) ?evs"
    by code_simp
  then have prefix: "takeWhile (\<lambda>e. \<not> spec_successful_refresh e) ?evs = ?evs"
    by (simp add: takeWhile_eq_all_conv list_all_iff)
  from failed_refresh_resets_record [OF due failed step, of ?envs]
  have reset: "current_weather (snd ?step) = WeatherData_init"
    and drawn: "ev_line (fst ?step) = Status ''Loading...''"
    and later: "\<forall>e \<in> set (takeWhile (\<lambda>e. \<not> spec_successful_refresh e) ?evs).
        ev_record e = WeatherData_init \<and> ev_line e = Status ''Loading...''"
    by blast+
  from later have "list_all (\<lambda>e. ev_line e = Status ''Loading...'') ?evs"
    unfolding prefix by (simp add: list_all_iff)
  with due failed ok reset drawn fetches show ?thesis by (intro conjI)
qed

text \<open>
  Claim C1 as stated fails: the record the loop holds after a failed refresh is not
  the record it held before. With a refresh interval of one second, the iteration at
  second 1000 fetches a valid record (the line drawn reads \<^verbatim>\<open>Clouds\<close>), the
  iteration at second 1001 calls \<^verbatim>\<open>fetchWeather\<close> again, the transfer fails, and
  line 471 assigns the invalid default record: the line drawn is \<^verbatim>\<open>Loading...\<close>.
\<close>

theorem failed_refresh_discards_record:
  "map ev_fetches (fst (run_loop (\<lambda>s. 0 :: int) (\<lambda>s. 0) ''metric'' 1
        [example_tick (Responded 200 example_body) 1000, example_tick PerformFailed 1001]
        (initial_state 1000))) = [1, 1]
   \<and> map ev_line (fst (run_loop (\<lambda>s. 0 :: int) (\<lambda>s. 0) ''metric'' 1
        [example_tick (Responded 200 example_body) 1000, example_tick PerformFailed 1001]
        (initial_state 1000))) = [Reading 0 CHR ''C'' ''Clouds'', Status ''Loading...'']
   \<and> \<not> valid (fetchWeather (\<lambda>s. 0 :: int) (\<lambda>s. 0) PerformFailed)
   \<and> current_weather (snd (run_loop (\<lambda>s. 0 :: int) (\<lambda>s. 0) ''metric'' 1
        [example_tick (Responded 200 example_body) 1000, example_tick PerformFailed 1001]
        (initial_state 1000)))
     \<noteq> current_weather (snd (run_loop (\<lambda>s. 0 :: int) (\<lambda>s. 0) ''metric'' 1
        [example_tick (Responded 200 example_body) 1000]
        (initial_state 1000)))"
  by code_simp

text \<open>
  Claim C8, as the code has it. In every run, each iteration calls \<^verbatim>\<open>fetchWeather\<close>
  at most once, and exactly when its deadline is at least \<open>weather_refresh\<close> seconds
  after the deadline of the last iteration that attempted a refresh, successful or
  not (after the initial \<^verbatim>\<open>last_weather_fetch\<close> when there was none). The refresh is
  part of the iteration and comes before its rendering: the record the iteration
  holds is the one that \<^verbatim>\<open>fetchWeather\<close> call returned, and the weather line it
  draws is drawn from that record.
\<close>

theorem refresh_schedule:
  "refresh_rule refresh_attempt weather_refresh (last_weather_fetch s)
     (fst (run_loop atof atol units weather_refresh envs s))
   \<and> list_all2 (\<lambda>env e. ev_fetches e \<le> 1
        \<and> (0 < ev_fetches e \<longrightarrow>
             ev_record e = fetchWeather atof atol (fetch_result env)
             \<and> ev_line e = draw_weather_line units (fetchWeather atof atol (fetch_result env))))
     envs (fst (run_loop atof atol units weather_refresh envs s))"
  using run_loop_refresh_rule run_loop_fetches by blast

theorem refresh_schedule_witness:
  "map ev_fetches (fst (run_loop (\<lambda>s. 0 :: int) (\<lambda>s. 0) ''metric'' 2
        [example_tick (Responded 200 example_body) 1000, example_tick PerformFailed 1001,
         example_tick PerformFailed 1002, example_tick (Responded 200 example_body) 1003]
        (initial_state 1000))) = [1, 0, 1, 0]
   \<and> refresh_rule refresh_attempt 2 (last_weather_fetch (initial_state 1000 :: int loop_state))
       (fst (run_loop (\<lambda>s. 0 :: int) (\<lambda>s. 0) ''metric'' 2
        [example_tick (Responded 200 example_body) 1000, example_tick PerformFailed 1001,
         example_tick PerformFailed 1002, example_tick (Responded 200 example_body) 1003]
        (initial_state 1000)))
   \<and> ev_record (hd (fst (run_loop (\<lambda>s. 0 :: int) (\<lambda>s. 0) ''metric'' 2
        [example_tick (Responded 200 example_body) 1000, example_tick PerformFailed 1001,
         example_tick PerformFailed 1002, example_tick (Responded 200 example_body) 1003]
        (initial_state 1000))))
       = fetchWeather (\<lambda>s. 0 :: int) (\<lambda>s. 0)
           (fetch_result (example_tick (Responded 200 example_body) 1000))
   \<and> ev_line (hd (fst (run_loop (\<lambda>s. 0 :: int) (\<lambda>s. 0) ''metric'' 2
        [example_tick (Responded 200 example_body) 1000, example_tick PerformFailed 1001,
         example_tick PerformFailed 1002, example_tick (Responded 200 example_body) 1003]
        (initial_state 1000))))
       = Reading 0 CHR ''C'' ''Clouds''"
proof -
  let ?envs = "[example_tick (Responded 200 example_body) 1000, example_tick PerformFailed 1001,
         example_tick PerformFailed 1002, example_tick (Responded 200 example_body) 1003]"
  let ?evs = "fst (run_loop (\<lambda>s. 0 :: int) (\<lambda>s. 0) ''metric'' 2 ?envs (initial_state 1000))"
  let ?fetched = "fetchWeather (\<lambda>s. 0 :: int) (\<lambda>s. 0)
      (fetch_result (example_tick (Responded 200 example_body) 1000))"
  have fetches: "map ev_fetches ?evs = [1, 0, 1, 0]"
    by code_simp
  then obtain e es where evs: "?evs = e # es" and e: "0 < ev_fetches e"
    by (cases ?evs) auto
  have drawn: "draw_weather_line ''metric'' ?fetched = Reading 0 CHR ''C'' ''Clouds''"
    by code_simp
  from refresh_schedule [of 2 "initial_state 1000 :: int loop_state" "\<lambda>s. 0 :: int" "\<lambda>s. 0"
      "''metric''" ?envs]
  have rule: "refresh_rule refresh_attempt 2
        (last_weather_fetch (initial_state 1000 :: int loop_state)) ?evs"
    and all: "list_all2 (\<lambda>env e. ev_fetches e \<le> 1
        \<and> (0 < ev_fetches e \<longrightarrow>
             ev_record e = fetchWeather (\<lambda>s. 0 :: int) (\<lambda>s. 0) (fetch_result env)
             \<and> ev_line e = draw_weather_line ''metric''
                 (fetchWeather (\<lambda>s. 0 :: int) (\<lambda>s. 0) (fetch_result env))))
       ?envs ?evs"
    by blast+
  from all e have "ev_record (hd ?evs) = ?fetched"
    and "ev_line (hd ?evs) = draw_weather_line ''metric'' ?fetched"
    unfolding evs by simp_all
  with drawn have "ev_record (hd ?evs) = ?fetched"
    and "ev_line (hd ?evs) = Reading 0 CHR ''C'' ''Clouds''"
    by simp_all
  with fetches rule show ?thesis by (intro conjI)
qed

text \<open>
  Claim C8 as stated fails where it counts from the last successful refresh. With an
  interval of two seconds: the iteration at second 1000 refreshes successfully, the
  one at 1002 attempts a refresh that fails, and the one at 1003, three seconds
  after the last successful refresh, calls nothing, because line 472 recorded the
  failed attempt.
\<close>

theorem refresh_counts_failed_attempts:
  "map ev_fetches (fst (run_loop (\<lambda>s. 0 :: int) (\<lambda>s. 0) ''metric'' 2
        [example_tick (Responded 200 example_body) 1000, example_tick PerformFailed 1001,
         example_tick PerformFailed 1002, example_tick (Responded 200 example_body) 1003]
        (initial_state 1000))) = [1, 0, 1, 0]
   \<and> map (\<lambda>e. valid (ev_record e)) (fst (run_loop (\<lambda>s. 0 :: int) (\<lambda>s. 0) ''metric'' 2
        [example_tick (Responded 200 example_body) 1000, example_tick PerformFailed 1001,
         example_tick PerformFailed 1002, example_tick (Responded 200 example_body) 1003]
        (initial_state 1000))) = [True, True, False, False]
   \<and> \<not> refresh_rule spec_successful_refresh 2
        (last_weather_fetch (initial_state 1000 :: int loop_state))
        (fst (run_loop (\<lambda>s. 0 :: int) (\<lambda>s. 0) ''metric'' 2
        [example_tick (Responded 200 example_body) 1000, example_tick PerformFailed 1001,
         example_tick PerformFailed 1002, example_tick (Responded 200 example_body) 1003]
        (initial_state 1000)))"
  by code_simp

end
